theory Spec2Isabelle
  imports Main
begin

section \<open>Resource stacks\<close>

text \<open>
  Modelled from the spec: the type \<open>item.Stack\<close> and its methods (\<open>Empty\<close>, \<open>Count\<close>,
  \<open>MaxCount\<close>, \<open>Comparable\<close>, \<open>AddStack\<close>, \<open>Grow\<close>, \<open>Item\<close>) and the constructor
  \<open>item.NewStack\<close> belong to package \<open>item\<close>, whose source is not part of the files
  verified here. The inventory only uses them through the capability set of section 3 of
  the specification: a stack is zero or more units of one resource type, with a maximum
  quantity per stack; a zero-quantity stack is empty; two stacks are comparable iff they
  hold the same resource identity; combining merges the argument into the receiver up to
  the receiver's capacity and returns what could not be absorbed; adjusting adds a
  (possibly negative) delta and clamps the quantity at zero.

  A resource is an identity together with the maximum quantity of a stack of it. The
  quantity of a stack is stored as a natural number (zero or more units); the methods
  return Go \<open>int\<close>s, modelled as \<open>int\<close>. The quantities involved stay between
  \<open>-(2^63 - 1)\<close> and the largest stack quantity, so no 64-bit operation of the
  inventory wraps around as long as quantities fit a Go \<open>int\<close>.
  The zero value \<open>item.Stack{}\<close> holds no resource (\<open>None\<close>) and quantity 0.
\<close>

record resource =
  ident :: nat
  max_quantity :: nat

record stack =
  item :: "resource option"
  count :: nat

text \<open>
  Modelled from the spec: the zero value \<open>item.Stack{}\<close> (package \<open>item\<close> is missing), which
  \<open>make([]item.Stack, size)\<close> puts in every slot and \<open>Item\<close> returns with
  \<open>ErrSlotOutOfRange\<close>: no resource, quantity 0.
\<close>

definition Stack_zero :: stack where
  "Stack_zero = \<lparr>item = None, count = 0\<rparr>"

text \<open>
  Modelled from the spec: \<open>item.NewStack\<close> (package \<open>item\<close> is missing), used by the
  inventory to "synthesize a zero-quantity stack of the incoming resource's identity". A
  stack holds zero or more units, so a negative count gives quantity 0.
\<close>

definition NewStack :: "resource option \<Rightarrow> int \<Rightarrow> stack" where
  "NewStack t n = \<lparr>item = t, count = nat n\<rparr>"

text \<open>
  Modelled from the spec: \<open>Stack.Item\<close> (package \<open>item\<close> is missing), the resource
  identity the stack carries.
\<close>

definition Stack_Item :: "stack \<Rightarrow> resource option" where
  "Stack_Item s = item s"

text \<open>
  Modelled from the spec: \<open>Stack.Count\<close> (package \<open>item\<close> is missing), the
  specification's \<open>quantity() -> integer\<close>.
\<close>

definition Stack_Count :: "stack \<Rightarrow> int" where
  "Stack_Count s = int (count s)"

text \<open>
  Modelled from the spec: \<open>Stack.MaxCount\<close> (package \<open>item\<close> is missing), the
  specification's \<open>maximumQuantity() -> integer\<close>, the maximum quantity per stack of the
  resource held. The specification gives no capacity to a stack without a resource; it is
  taken to be 0.
\<close>

definition Stack_MaxCount :: "stack \<Rightarrow> int" where
  "Stack_MaxCount s = (case item s of None \<Rightarrow> 0 | Some r \<Rightarrow> int (max_quantity r))"

text \<open>
  Modelled from the spec: \<open>Stack.Empty\<close> (package \<open>item\<close> is missing), the
  specification's \<open>isEmpty()\<close>: "a slot holding a zero-quantity stack is considered empty".
\<close>

definition Stack_Empty :: "stack \<Rightarrow> bool" where
  "Stack_Empty s \<longleftrightarrow> Stack_Count s = 0"

text \<open>
  Modelled from the spec: \<open>Stack.Comparable\<close> (package \<open>item\<close> is missing), the
  specification's \<open>isComparable(other)\<close>: "true iff two stacks hold the same resource
  identity and could be merged".
\<close>

definition Stack_Comparable :: "stack \<Rightarrow> stack \<Rightarrow> bool" where
  "Stack_Comparable s s2 \<longleftrightarrow> item s = item s2"

text \<open>
  Modelled from the spec: \<open>Stack.AddStack\<close> (package \<open>item\<close> is missing), the
  specification's \<open>combine(other) -> (filled, remainder)\<close>: it "merges other into the
  receiver up to capacity; returns the resulting receiver stack and whatever could not be
  absorbed", and "never exceeds maximumQuantity". Stacks that are not comparable cannot be
  merged, and a receiver at or above its maximum absorbs nothing: both stacks come back
  as they are.
\<close>

definition Stack_AddStack :: "stack \<Rightarrow> stack \<Rightarrow> stack \<times> stack" where
  "Stack_AddStack s s2 =
     (if \<not> Stack_Comparable s s2 then (s, s2)
      else if Stack_MaxCount s \<le> Stack_Count s then (s, s2)
      else let diff = min (Stack_MaxCount s - Stack_Count s) (Stack_Count s2)
           in (s\<lparr>count := nat (Stack_Count s + diff)\<rparr>,
               s2\<lparr>count := nat (Stack_Count s2 - diff)\<rparr>))"

text \<open>
  Modelled from the spec: \<open>Stack.Grow\<close> (package \<open>item\<close> is missing), the
  specification's \<open>adjust(delta)\<close>: "returns a copy with quantity increased (delta>0) or
  decreased (delta<0), clamped so quantity never goes negative".
\<close>

definition Stack_Grow :: "stack \<Rightarrow> int \<Rightarrow> stack" where
  "Stack_Grow s n = s\<lparr>count := nat (Stack_Count s + n)\<rparr>"

section \<open>The inventory\<close>

text \<open>
  \<open>Inventory\<close> is a struct of a slice of stacks and the function \<open>f\<close> called on every
  slot write. \<open>f\<close> is a Go function value: \<open>None\<close> is the nil function of the zero
  value \<open>Inventory{}\<close>, calling it panics. What \<open>f\<close> does lies outside the inventory:
  it is modelled as a transformer of an outside state \<open>'w\<close>, which every mutating
  method threads through; it is taken to return, and it cannot reach the slots (the
  fields are unexported and the lock is held while it runs). The mutex \<open>mu\<close> is not
  modelled: every method runs as one critical section, so a sequential model describes
  each call.

  The receiver \<open>inv\<close> is written \<open>iv\<close> and the parameter \<open>size\<close> of \<open>New\<close> is written
  \<open>sz\<close>: \<open>inv\<close> and \<open>size\<close> are constants of HOL.

  A method that panics yields \<open>Panics\<close>; otherwise \<open>Returns\<close> carries the Go return
  values and, for a mutating method, the inventory and the outside state after the call.
  A Go \<open>error\<close> is an \<open>error option\<close>, \<open>None\<close> being \<open>nil\<close>. The two errors made with
  \<open>fmt.Errorf\<close> in \<open>AddItem\<close> and \<open>RemoveItem\<close> are the specification's
  InsufficientCapacity and InsufficientQuantity.
\<close>

datatype error = ErrSlotOutOfRange | ErrCouldNotAdd | ErrCouldNotRemove

datatype 'a result = Panics | Returns 'a

record 'w inventory =
  slots :: "stack list"
  f :: "(int \<Rightarrow> stack \<Rightarrow> 'w \<Rightarrow> 'w) option"

definition Inventory_zero :: "'w inventory" where
  "Inventory_zero = \<lparr>slots = [], f = None\<rparr>"

definition New :: "int \<Rightarrow> (int \<Rightarrow> stack \<Rightarrow> 'w \<Rightarrow> 'w) option \<Rightarrow> 'w inventory result" where
  "New sz g =
     (if sz \<le> 0 then Panics
      else Returns \<lparr>slots = replicate (nat sz) Stack_zero,
                    f = (case g of None \<Rightarrow> Some (\<lambda>slot it w. w) | Some h \<Rightarrow> Some h)\<rparr>)"

definition Size :: "'w inventory \<Rightarrow> int" where
  "Size iv = int (length (slots iv))"

definition validSlot :: "'w inventory \<Rightarrow> int \<Rightarrow> bool" where
  "validSlot iv slot \<longleftrightarrow> slot \<ge> 0 \<and> slot < Size iv"

definition check :: "'w inventory \<Rightarrow> unit result" where
  "check iv = (if Size iv = 0 then Panics else Returns ())"

text \<open>
  \<open>setItem\<close> writes the slot and then calls \<open>f\<close>. An index outside the slice and a nil
  \<open>f\<close> are run-time panics of Go.
\<close>

definition setItem :: "'w inventory \<Rightarrow> int \<Rightarrow> stack \<Rightarrow> 'w \<Rightarrow> ('w inventory \<times> 'w) result" where
  "setItem iv slot it w =
     (if slot < 0 \<or> int (length (slots iv)) \<le> slot then Panics
      else (case f iv of
              None \<Rightarrow> Panics
            | Some g \<Rightarrow> Returns (iv\<lparr>slots := (slots iv)[nat slot := it]\<rparr>, g slot it w)))"

definition Item :: "'w inventory \<Rightarrow> int \<Rightarrow> (stack \<times> error option) result" where
  "Item iv slot =
     (case check iv of
        Panics \<Rightarrow> Panics
      | Returns _ \<Rightarrow>
          if \<not> validSlot iv slot then Returns (Stack_zero, Some ErrSlotOutOfRange)
          else Returns (slots iv ! nat slot, None))"

definition SetItem ::
  "'w inventory \<Rightarrow> int \<Rightarrow> stack \<Rightarrow> 'w \<Rightarrow> (error option \<times> 'w inventory \<times> 'w) result" where
  "SetItem iv slot it w =
     (case check iv of
        Panics \<Rightarrow> Panics
      | Returns _ \<Rightarrow>
          if \<not> validSlot iv slot then Returns (Some ErrSlotOutOfRange, iv, w)
          else (case setItem iv slot it w of
                  Panics \<Rightarrow> Panics
                | Returns (iv', w') \<Rightarrow> Returns (None, iv', w')))"

text \<open>
  The loops of \<open>AddItem\<close> and \<open>RemoveItem\<close> range over \<open>inv.slots\<close>: Go evaluates the
  length once, when the loop starts (the argument \<open>n\<close>), and reads element \<open>slot\<close> of the
  shared backing array at the start of each iteration. The first component of a loop's
  result tells whether the loop left the method with \<open>return nil\<close>; the stack is the
  value of the variable \<open>it\<close> on exit.
\<close>

function AddItem_pass1 ::
  "nat \<Rightarrow> 'w inventory \<Rightarrow> stack \<Rightarrow> nat \<Rightarrow> 'w \<Rightarrow> (bool \<times> stack \<times> 'w inventory \<times> 'w) result" where
  "AddItem_pass1 n iv it slot w =
     (if n \<le> slot then Returns (False, it, iv, w)
      else if length (slots iv) \<le> slot then Panics
      else if Stack_Empty (slots iv ! slot) then AddItem_pass1 n iv it (Suc slot) w
      else (case Stack_AddStack (slots iv ! slot) it of
              (a, b) \<Rightarrow>
                (case setItem iv (int slot) a w of
                   Panics \<Rightarrow> Panics
                 | Returns (iv', w') \<Rightarrow>
                     if Stack_Empty b then Returns (True, b, iv', w')
                     else AddItem_pass1 n iv' b (Suc slot) w')))"
  by pat_completeness auto
termination
  by (relation "measure (\<lambda>(n, iv, it, slot, w). n - slot)") auto

function AddItem_pass2 ::
  "nat \<Rightarrow> 'w inventory \<Rightarrow> stack \<Rightarrow> nat \<Rightarrow> 'w \<Rightarrow> (bool \<times> stack \<times> 'w inventory \<times> 'w) result" where
  "AddItem_pass2 n iv it slot w =
     (if n \<le> slot then Returns (False, it, iv, w)
      else if length (slots iv) \<le> slot then Panics
      else if \<not> Stack_Empty (slots iv ! slot) then AddItem_pass2 n iv it (Suc slot) w
      else (case Stack_AddStack (NewStack (Stack_Item it) 0) it of
              (a, b) \<Rightarrow>
                (case setItem iv (int slot) a w of
                   Panics \<Rightarrow> Panics
                 | Returns (iv', w') \<Rightarrow>
                     if Stack_Empty b then Returns (True, b, iv', w')
                     else AddItem_pass2 n iv' b (Suc slot) w')))"
  by pat_completeness auto
termination
  by (relation "measure (\<lambda>(n, iv, it, slot, w). n - slot)") auto

definition AddItem ::
  "'w inventory \<Rightarrow> stack \<Rightarrow> 'w \<Rightarrow> (error option \<times> 'w inventory \<times> 'w) result" where
  "AddItem iv it w =
     (case AddItem_pass1 (length (slots iv)) iv it 0 w of
        Panics \<Rightarrow> Panics
      | Returns (returned, it1, iv1, w1) \<Rightarrow>
          if returned then Returns (None, iv1, w1)
          else (case AddItem_pass2 (length (slots iv1)) iv1 it1 0 w1 of
                  Panics \<Rightarrow> Panics
                | Returns (returned2, it2, iv2, w2) \<Rightarrow>
                    if returned2 then Returns (None, iv2, w2)
                    else Returns (Some ErrCouldNotAdd, iv2, w2)))"

function RemoveItem_loop ::
  "nat \<Rightarrow> 'w inventory \<Rightarrow> stack \<Rightarrow> int \<Rightarrow> nat \<Rightarrow> 'w \<Rightarrow> (bool \<times> 'w inventory \<times> 'w) result" where
  "RemoveItem_loop n iv it toRemove slot w =
     (if n \<le> slot then Returns (False, iv, w)
      else if length (slots iv) \<le> slot then Panics
      else if Stack_Empty (slots iv ! slot) then RemoveItem_loop n iv it toRemove (Suc slot) w
      else if \<not> Stack_Comparable (slots iv ! slot) it
        then RemoveItem_loop n iv it toRemove (Suc slot) w
      else (case setItem iv (int slot) (Stack_Grow (slots iv ! slot) (- toRemove)) w of
              Panics \<Rightarrow> Panics
            | Returns (iv', w') \<Rightarrow>
                if toRemove - Stack_Count (slots iv ! slot) \<le> 0 then Returns (True, iv', w')
                else RemoveItem_loop n iv' it (toRemove - Stack_Count (slots iv ! slot))
                       (Suc slot) w'))"
  by pat_completeness auto
termination
  by (relation "measure (\<lambda>(n, iv, it, toRemove, slot, w). n - slot)") auto

definition RemoveItem ::
  "'w inventory \<Rightarrow> stack \<Rightarrow> 'w \<Rightarrow> (error option \<times> 'w inventory \<times> 'w) result" where
  "RemoveItem iv it w =
     (case RemoveItem_loop (length (slots iv)) iv it (Stack_Count it) 0 w of
        Panics \<Rightarrow> Panics
      | Returns (returned, iv', w') \<Rightarrow>
          if returned then Returns (None, iv', w')
          else Returns (Some ErrCouldNotRemove, iv', w'))"

fun Empty_loop :: "stack list \<Rightarrow> bool" where
  "Empty_loop [] = True"
| "Empty_loop (it # rest) = (if \<not> Stack_Empty it then False else Empty_loop rest)"

definition Empty :: "'w inventory \<Rightarrow> bool" where
  "Empty iv = Empty_loop (slots iv)"

definition Close :: "'w inventory \<Rightarrow> error option \<times> 'w inventory" where
  "Close iv = (None, iv\<lparr>f := Some (\<lambda>slot it w. w)\<rparr>)"

section \<open>The recipe registry\<close>

text \<open>
  The package variable \<open>recipes\<close> is the state; \<open>Register\<close> returns the new state.
  The type \<open>Recipe\<close> is declared elsewhere and is a type parameter here.
\<close>

definition recipes_init :: "'r list" where
  "recipes_init = []"

definition Register :: "'r \<Rightarrow> 'r list \<Rightarrow> 'r list" where
  "Register recipe recipes = recipes @ [recipe]"

definition Recipes :: "'r list \<Rightarrow> 'r list" where
  "Recipes recipes = recipes"

section \<open>Sequences of calls\<close>

text \<open>
  A caller's view of an inventory over time: a list of calls of the public methods, run
  from left to right. Only the inventory and the outside state are kept between calls;
  a panic ends the run. \<open>Empty\<close> and \<open>Size\<close> read the slots and return a value: they
  cannot panic and leave the inventory as it is.
\<close>

datatype call =
  CallItem int
| CallSetItem int stack
| CallAddItem stack
| CallRemoveItem stack
| CallEmpty
| CallSize
| CallClose

fun do_call :: "call \<Rightarrow> 'w inventory \<Rightarrow> 'w \<Rightarrow> ('w inventory \<times> 'w) result" where
  "do_call (CallItem slot) iv w =
     (case Item iv slot of Panics \<Rightarrow> Panics | Returns _ \<Rightarrow> Returns (iv, w))"
| "do_call (CallSetItem slot it) iv w =
     (case SetItem iv slot it w of Panics \<Rightarrow> Panics | Returns (_, iv', w') \<Rightarrow> Returns (iv', w'))"
| "do_call (CallAddItem it) iv w =
     (case AddItem iv it w of Panics \<Rightarrow> Panics | Returns (_, iv', w') \<Rightarrow> Returns (iv', w'))"
| "do_call (CallRemoveItem it) iv w =
     (case RemoveItem iv it w of Panics \<Rightarrow> Panics | Returns (_, iv', w') \<Rightarrow> Returns (iv', w'))"
| "do_call CallEmpty iv w = Returns (iv, w)"
| "do_call CallSize iv w = Returns (iv, w)"
| "do_call CallClose iv w = Returns (snd (Close iv), w)"

fun do_calls :: "call list \<Rightarrow> 'w inventory \<Rightarrow> 'w \<Rightarrow> ('w inventory \<times> 'w) result" where
  "do_calls [] iv w = Returns (iv, w)"
| "do_calls (c # cs) iv w =
     (case do_call c iv w of Panics \<Rightarrow> Panics | Returns (iv', w') \<Rightarrow> do_calls cs iv' w')"

section \<open>The scans as functions on the list of slots\<close>

text \<open>
  The three loops, written once more as recursions over the list of slots that are still
  to be visited, \<open>i\<close> being the index of its head. Each returns whether the method
  returned \<open>nil\<close> from inside the loop, the slots after the scan and the slot writes in
  the order they happened (index and stack written), which is the sequence of calls of
  \<open>f\<close>. They are what the index loops above are shown to compute.
\<close>

definition notify :: "(int \<Rightarrow> stack \<Rightarrow> 'w \<Rightarrow> 'w) \<Rightarrow> (nat \<times> stack) list \<Rightarrow> 'w \<Rightarrow> 'w" where
  "notify g writes w = fold (\<lambda>(slot, it). g (int slot) it) writes w"

fun pass1_scan ::
  "stack list \<Rightarrow> stack \<Rightarrow> nat \<Rightarrow> bool \<times> stack \<times> stack list \<times> (nat \<times> stack) list" where
  "pass1_scan [] it i = (False, it, [], [])"
| "pass1_scan (s # ss) it i =
     (if Stack_Empty s
      then (case pass1_scan ss it (Suc i) of (r, it', ss', writes) \<Rightarrow> (r, it', s # ss', writes))
      else (case Stack_AddStack s it of
              (a, b) \<Rightarrow>
                if Stack_Empty b then (True, b, a # ss, [(i, a)])
                else (case pass1_scan ss b (Suc i) of
                        (r, it', ss', writes) \<Rightarrow> (r, it', a # ss', (i, a) # writes))))"

fun pass2_scan ::
  "stack list \<Rightarrow> stack \<Rightarrow> nat \<Rightarrow> bool \<times> stack \<times> stack list \<times> (nat \<times> stack) list" where
  "pass2_scan [] it i = (False, it, [], [])"
| "pass2_scan (s # ss) it i =
     (if \<not> Stack_Empty s
      then (case pass2_scan ss it (Suc i) of (r, it', ss', writes) \<Rightarrow> (r, it', s # ss', writes))
      else (case Stack_AddStack (NewStack (Stack_Item it) 0) it of
              (a, b) \<Rightarrow>
                if Stack_Empty b then (True, b, a # ss, [(i, a)])
                else (case pass2_scan ss b (Suc i) of
                        (r, it', ss', writes) \<Rightarrow> (r, it', a # ss', (i, a) # writes))))"

text \<open>
  What the loop of \<open>RemoveItem\<close> computes: empty and incomparable slots are skipped; a
  matching slot is written back with its quantity lowered by the running remainder \<open>r\<close>
  and clamped at zero, the remainder is then lowered by the quantity the slot had before,
  and the scan succeeds if the remainder is now at most 0. The remainder is tested
  nowhere else: running out of slots is the failure, whatever the remainder.
\<close>

fun remove_scan ::
  "stack list \<Rightarrow> stack \<Rightarrow> int \<Rightarrow> nat \<Rightarrow> bool \<times> stack list \<times> (nat \<times> stack) list" where
  "remove_scan [] it r i = (False, [], [])"
| "remove_scan (s # ss) it r i =
     (if Stack_Empty s \<or> \<not> Stack_Comparable s it
      then (case remove_scan ss it r (Suc i) of (ok, ss', writes) \<Rightarrow> (ok, s # ss', writes))
      else (let shrunk = s\<lparr>count := nat (max 0 (int (count s) - r))\<rparr> in
            if r - int (count s) \<le> 0 then (True, shrunk # ss, [(i, shrunk)])
            else (case remove_scan ss it (r - int (count s)) (Suc i) of
                    (ok, ss', writes) \<Rightarrow> (ok, shrunk # ss', (i, shrunk) # writes))))"

text \<open>
  The removal scan in the words of the specification, which differ from the loop in one
  place: "stop and succeed as soon as the remainder is at most 0", and fail "if the scan
  exhausts all slots with remainder still positive". So a scan that runs out of slots
  fails only when the remainder is still positive.
\<close>

fun remove_claimed ::
  "stack list \<Rightarrow> stack \<Rightarrow> int \<Rightarrow> nat \<Rightarrow> bool \<times> stack list \<times> (nat \<times> stack) list" where
  "remove_claimed [] it r i = (r \<le> 0, [], [])"
| "remove_claimed (s # ss) it r i =
     (if Stack_Empty s \<or> \<not> Stack_Comparable s it
      then (case remove_claimed ss it r (Suc i) of (ok, ss', writes) \<Rightarrow> (ok, s # ss', writes))
      else (let shrunk = s\<lparr>count := nat (max 0 (int (count s) - r))\<rparr> in
            if r - int (count s) \<le> 0 then (True, shrunk # ss, [(i, shrunk)])
            else (case remove_claimed ss it (r - int (count s)) (Suc i) of
                    (ok, ss', writes) \<Rightarrow> (ok, shrunk # ss', (i, shrunk) # writes))))"

text \<open>
  What a failed \<open>AddItem it\<close> leaves in a slot that held \<open>s\<close>: an empty slot holds a
  full stack of the resource of \<open>it\<close>, a comparable stack below its maximum is topped up
  to it, any other slot is as it was.
\<close>

definition fill_slot :: "stack \<Rightarrow> stack \<Rightarrow> stack" where
  "fill_slot it s =
     (if Stack_Empty s then \<lparr>item = Stack_Item it, count = nat (Stack_MaxCount it)\<rparr>
      else if Stack_Comparable s it \<and> Stack_Count s < Stack_MaxCount s
        then s\<lparr>count := nat (Stack_MaxCount s)\<rparr>
      else s)"

definition nonempty_slots :: "stack list \<Rightarrow> nat list" where
  "nonempty_slots ss = filter (\<lambda>i. \<not> Stack_Empty (ss ! i)) [0..<length ss]"

text \<open>
  The result of a call as it would be with the notifications switched off: the same
  returned error and slots, \<open>f\<close> replaced as \<open>Close\<close> does, the outside state \<open>w\<close>
  untouched.
\<close>

definition silenced ::
  "(error option \<times> 'w inventory \<times> 'w) result \<Rightarrow> 'w \<Rightarrow> (error option \<times> 'w inventory \<times> 'w) result" where
  "silenced res w =
     (case res of Panics \<Rightarrow> Panics | Returns (e, iv', w') \<Rightarrow> Returns (e, snd (Close iv'), w))"

section \<open>Example values\<close>

definition example_resource :: "nat \<Rightarrow> resource" where
  "example_resource k = \<lparr>ident = k, max_quantity = 64\<rparr>"

definition example_stack :: "nat \<Rightarrow> int \<Rightarrow> stack" where
  "example_stack k n = NewStack (Some (example_resource k)) n"

text \<open>A function \<open>f\<close> that records its calls; the outside state is the record.\<close>

definition record_call :: "int \<Rightarrow> stack \<Rightarrow> (int \<times> stack) list \<Rightarrow> (int \<times> stack) list" where
  "record_call slot it w = w @ [(slot, it)]"

definition example_inventory :: "stack list \<Rightarrow> (int \<times> stack) list inventory" where
  "example_inventory ss = \<lparr>slots = ss, f = Some record_call\<rparr>"

lemmas stack_defs = Stack_Empty_def Stack_Count_def Stack_Comparable_def Stack_MaxCount_def
  Stack_AddStack_def Stack_Grow_def Stack_Item_def NewStack_def Stack_zero_def
  example_stack_def example_resource_def

section \<open>The index loops compute the scans\<close>

declare AddItem_pass1.simps [simp del]
declare AddItem_pass2.simps [simp del]
declare RemoveItem_loop.simps [simp del]

lemma setItem_append:
  "f iv = Some g \<Longrightarrow> slots iv = pre @ s # ss \<Longrightarrow>
   setItem iv (int (length pre)) a w = Returns (iv\<lparr>slots := pre @ a # ss\<rparr>, g (int (length pre)) a w)"
  by (simp add: setItem_def)

lemma pass1_refine:
  "f iv = Some g \<Longrightarrow> slots iv = pre @ rest \<Longrightarrow>
   AddItem_pass1 (length pre + length rest) iv it (length pre) w =
     (case pass1_scan rest it (length pre) of
        (r, it', rest', writes) \<Rightarrow> Returns (r, it', iv\<lparr>slots := pre @ rest'\<rparr>, notify g writes w))"
proof (induction rest arbitrary: pre iv it w)
  case Nil
  then show ?case
    by (subst AddItem_pass1.simps) (simp add: notify_def)
next
  case (Cons s ss)
  show ?case
  proof (cases "Stack_Empty s")
    case True
    have "AddItem_pass1 (length pre + length (s # ss)) iv it (length pre) w =
          AddItem_pass1 (length (pre @ [s]) + length ss) iv it (length (pre @ [s])) w"
      using Cons.prems True by (subst AddItem_pass1.simps) simp
    also have "\<dots> = (case pass1_scan ss it (length (pre @ [s])) of
        (r, it', rest', writes) \<Rightarrow>
          Returns (r, it', iv\<lparr>slots := (pre @ [s]) @ rest'\<rparr>, notify g writes w))"
      using Cons.prems by (intro Cons.IH) simp_all
    finally show ?thesis using True by (simp split: prod.splits)
  next
    case False
    obtain a b where ab: "Stack_AddStack s it = (a, b)" by (cases "Stack_AddStack s it")
    let ?iv = "iv\<lparr>slots := pre @ a # ss\<rparr>"
    let ?w = "g (int (length pre)) a w"
    show ?thesis
    proof (cases "Stack_Empty b")
      case True
      then show ?thesis
        using Cons.prems False ab
        by (subst AddItem_pass1.simps) (simp add: setItem_append notify_def)
    next
      case nb: False
      have "AddItem_pass1 (length pre + length (s # ss)) iv it (length pre) w =
            AddItem_pass1 (length (pre @ [a]) + length ss) ?iv b (length (pre @ [a])) ?w"
        using Cons.prems False ab nb by (subst AddItem_pass1.simps) (simp add: setItem_append)
      also have "\<dots> = (case pass1_scan ss b (length (pre @ [a])) of
          (r, it', rest', writes) \<Rightarrow>
            Returns (r, it', ?iv\<lparr>slots := (pre @ [a]) @ rest'\<rparr>, notify g writes ?w))"
        using Cons.prems by (intro Cons.IH) simp_all
      finally show ?thesis using False ab nb by (simp add: notify_def split: prod.splits)
    qed
  qed
qed

lemma pass2_refine:
  "f iv = Some g \<Longrightarrow> slots iv = pre @ rest \<Longrightarrow>
   AddItem_pass2 (length pre + length rest) iv it (length pre) w =
     (case pass2_scan rest it (length pre) of
        (r, it', rest', writes) \<Rightarrow> Returns (r, it', iv\<lparr>slots := pre @ rest'\<rparr>, notify g writes w))"
proof (induction rest arbitrary: pre iv it w)
  case Nil
  then show ?case
    by (subst AddItem_pass2.simps) (simp add: notify_def)
next
  case (Cons s ss)
  show ?case
  proof (cases "Stack_Empty s")
    case False
    have "AddItem_pass2 (length pre + length (s # ss)) iv it (length pre) w =
          AddItem_pass2 (length (pre @ [s]) + length ss) iv it (length (pre @ [s])) w"
      using Cons.prems False by (subst AddItem_pass2.simps) simp
    also have "\<dots> = (case pass2_scan ss it (length (pre @ [s])) of
        (r, it', rest', writes) \<Rightarrow>
          Returns (r, it', iv\<lparr>slots := (pre @ [s]) @ rest'\<rparr>, notify g writes w))"
      using Cons.prems by (intro Cons.IH) simp_all
    finally show ?thesis using False by (simp split: prod.splits)
  next
    case True
    obtain a b where ab: "Stack_AddStack (NewStack (Stack_Item it) 0) it = (a, b)"
      by (cases "Stack_AddStack (NewStack (Stack_Item it) 0) it")
    let ?iv = "iv\<lparr>slots := pre @ a # ss\<rparr>"
    let ?w = "g (int (length pre)) a w"
    show ?thesis
    proof (cases "Stack_Empty b")
      case eb: True
      then show ?thesis
        using Cons.prems True ab
        by (subst AddItem_pass2.simps) (simp add: setItem_append notify_def)
    next
      case nb: False
      have "AddItem_pass2 (length pre + length (s # ss)) iv it (length pre) w =
            AddItem_pass2 (length (pre @ [a]) + length ss) ?iv b (length (pre @ [a])) ?w"
        using Cons.prems True ab nb by (subst AddItem_pass2.simps) (simp add: setItem_append)
      also have "\<dots> = (case pass2_scan ss b (length (pre @ [a])) of
          (r, it', rest', writes) \<Rightarrow>
            Returns (r, it', ?iv\<lparr>slots := (pre @ [a]) @ rest'\<rparr>, notify g writes ?w))"
        using Cons.prems by (intro Cons.IH) simp_all
      finally show ?thesis using True ab nb by (simp add: notify_def split: prod.splits)
    qed
  qed
qed

lemma Stack_Grow_shrink:
  "Stack_Grow s (- r) = s\<lparr>count := nat (max 0 (int (count s) - r))\<rparr>"
  by (simp add: Stack_Grow_def Stack_Count_def)

lemma remove_refine:
  "f iv = Some g \<Longrightarrow> slots iv = pre @ rest \<Longrightarrow>
   RemoveItem_loop (length pre + length rest) iv it r (length pre) w =
     (case remove_scan rest it r (length pre) of
        (ok, rest', writes) \<Rightarrow> Returns (ok, iv\<lparr>slots := pre @ rest'\<rparr>, notify g writes w))"
proof (induction rest arbitrary: pre iv r w)
  case Nil
  then show ?case
    by (subst RemoveItem_loop.simps) (simp add: notify_def)
next
  case (Cons s ss)
  show ?case
  proof (cases "Stack_Empty s \<or> \<not> Stack_Comparable s it")
    case True
    have "RemoveItem_loop (length pre + length (s # ss)) iv it r (length pre) w =
          RemoveItem_loop (length (pre @ [s]) + length ss) iv it r (length (pre @ [s])) w"
      using Cons.prems True by (subst RemoveItem_loop.simps) auto
    also have "\<dots> = (case remove_scan ss it r (length (pre @ [s])) of
        (ok, rest', writes) \<Rightarrow>
          Returns (ok, iv\<lparr>slots := (pre @ [s]) @ rest'\<rparr>, notify g writes w))"
      using Cons.prems by (intro Cons.IH) simp_all
    finally show ?thesis using True by (auto split: prod.splits)
  next
    case False
    define a where "a = s\<lparr>count := nat (max 0 (int (count s) - r))\<rparr>"
    have grow: "Stack_Grow s (- r) = a" by (simp add: a_def Stack_Grow_shrink)
    let ?iv = "iv\<lparr>slots := pre @ a # ss\<rparr>"
    let ?w = "g (int (length pre)) a w"
    show ?thesis
    proof (cases "r - int (count s) \<le> 0")
      case True
      then show ?thesis
        using Cons.prems False grow
        by (subst RemoveItem_loop.simps)
           (simp add: setItem_append notify_def Stack_Count_def a_def Let_def)
    next
      case more: False
      have "RemoveItem_loop (length pre + length (s # ss)) iv it r (length pre) w =
            RemoveItem_loop (length (pre @ [a]) + length ss) ?iv it (r - int (count s))
              (length (pre @ [a])) ?w"
        using Cons.prems False grow more
        by (subst RemoveItem_loop.simps) (simp add: setItem_append Stack_Count_def)
      also have "\<dots> = (case remove_scan ss it (r - int (count s)) (length (pre @ [a])) of
          (ok, rest', writes) \<Rightarrow>
            Returns (ok, ?iv\<lparr>slots := (pre @ [a]) @ rest'\<rparr>, notify g writes ?w))"
        using Cons.prems by (intro Cons.IH) simp_all
      finally show ?thesis using False more
        by (simp add: notify_def a_def Let_def split: prod.splits)
    qed
  qed
qed

lemma AddItem_eq_scan:
  assumes "f iv = Some g"
  shows "AddItem iv it w =
     (case pass1_scan (slots iv) it 0 of
        (r1, it1, ss1, ws1) \<Rightarrow>
          if r1 then Returns (None, iv\<lparr>slots := ss1\<rparr>, notify g ws1 w)
          else (case pass2_scan ss1 it1 0 of
                  (r2, it2, ss2, ws2) \<Rightarrow>
                    Returns (if r2 then None else Some ErrCouldNotAdd, iv\<lparr>slots := ss2\<rparr>,
                             notify g ws2 (notify g ws1 w))))"
proof -
  obtain r1 it1 ss1 ws1 where p1: "pass1_scan (slots iv) it 0 = (r1, it1, ss1, ws1)"
    by (cases "pass1_scan (slots iv) it 0")
  have one: "AddItem_pass1 (length (slots iv)) iv it 0 w =
             Returns (r1, it1, iv\<lparr>slots := ss1\<rparr>, notify g ws1 w)"
    using pass1_refine [of iv g "[]" "slots iv" it w] assms p1 by simp
  obtain r2 it2 ss2 ws2 where p2: "pass2_scan ss1 it1 0 = (r2, it2, ss2, ws2)"
    by (cases "pass2_scan ss1 it1 0")
  have two: "AddItem_pass2 (length ss1) (iv\<lparr>slots := ss1\<rparr>) it1 0 (notify g ws1 w) =
             Returns (r2, it2, iv\<lparr>slots := ss2\<rparr>, notify g ws2 (notify g ws1 w))"
    using pass2_refine [of "iv\<lparr>slots := ss1\<rparr>" g "[]" ss1 it1 "notify g ws1 w"] assms p2
    by simp
  show ?thesis
    by (simp add: AddItem_def one two p1 p2)
qed

lemma RemoveItem_eq_scan:
  assumes "f iv = Some g"
  shows "RemoveItem iv it w =
     (case remove_scan (slots iv) it (Stack_Count it) 0 of
        (ok, ss', writes) \<Rightarrow>
          Returns (if ok then None else Some ErrCouldNotRemove, iv\<lparr>slots := ss'\<rparr>,
                   notify g writes w))"
  using remove_refine [of iv g "[]" "slots iv" it "Stack_Count it" w] assms
  by (simp add: RemoveItem_def split: prod.splits)

lemma notify_silent: "notify (\<lambda>slot it w. w) writes w = w"
  by (induction writes) (auto simp: notify_def)

section \<open>Construction and the zero value\<close>

lemma AddItem_zero_value:
  "AddItem Inventory_zero it w = Returns (Some ErrCouldNotAdd, Inventory_zero, w)"
  by (simp add: AddItem_def Inventory_zero_def AddItem_pass1.simps AddItem_pass2.simps)

lemma RemoveItem_zero_value:
  "RemoveItem Inventory_zero it w = Returns (Some ErrCouldNotRemove, Inventory_zero, w)"
  by (simp add: RemoveItem_def Inventory_zero_def RemoveItem_loop.simps)

text \<open>
  Claim C1, as stated: constructing with \<open>size \<le> 0\<close> panics, and every public method
  panics on the zero value. The second half fails: only \<open>Item\<close> and \<open>SetItem\<close> call
  \<open>check\<close>. On \<open>Inventory{}\<close>, \<open>Size\<close> returns 0 (\<open>check\<close> itself is written in terms of
  that), \<open>Empty\<close> returns true, \<open>Close\<close> returns nil, and \<open>AddItem\<close> and \<open>RemoveItem\<close>
  return their ordinary errors.
\<close>

theorem zero_value_calls_return:
  "Size (Inventory_zero :: unit inventory) = 0
   \<and> Empty (Inventory_zero :: unit inventory)
   \<and> fst (Close (Inventory_zero :: unit inventory)) = None
   \<and> AddItem Inventory_zero (example_stack 1 1) () = Returns (Some ErrCouldNotAdd, Inventory_zero, ())
   \<and> RemoveItem Inventory_zero (example_stack 1 1) ()
       = Returns (Some ErrCouldNotRemove, Inventory_zero, ())"
  by (simp add: AddItem_zero_value RemoveItem_zero_value)
     (simp add: Size_def Empty_def Close_def Inventory_zero_def)

text \<open>
  Claim C1, amended: \<open>New\<close> panics exactly when \<open>size \<le> 0\<close>; \<open>Item\<close> and \<open>SetItem\<close>
  panic on every inventory of size 0, whatever the slot and the stack; \<open>Size\<close> returns 0 on
  the zero value.
\<close>

theorem invalid_construction_panics:
  "(New sz g = Panics \<longleftrightarrow> sz \<le> 0)
   \<and> (Size iv = 0 \<longrightarrow> Item iv slot = Panics \<and> SetItem iv slot x w = Panics)
   \<and> Size Inventory_zero = 0"
  by (simp add: New_def Item_def SetItem_def check_def Size_def Inventory_zero_def)

theorem invalid_construction_panics_witness:
  "(New 0 None = (Panics :: unit inventory result) \<longleftrightarrow> (0::int) \<le> 0)
   \<and> Size (Inventory_zero :: unit inventory) = 0
   \<and> Item (Inventory_zero :: unit inventory) 0 = Panics
   \<and> SetItem (Inventory_zero :: unit inventory) 0 (example_stack 1 1) () = Panics"
  using invalid_construction_panics [of 0 None "Inventory_zero :: unit inventory" 0
      "example_stack 1 1" "()"]
  by (simp add: Size_def Inventory_zero_def)

section \<open>Reading and writing one slot\<close>

text \<open>
  Claim C6: on an inventory with a function \<open>f\<close> (every inventory made by \<open>New\<close> has one),
  for every slot with \<open>0 \<le> slot < Size\<close> and every stack \<open>x\<close>, \<open>SetItem slot x\<close> returns
  nil, having written the slot and called \<open>f slot x\<close>, and \<open>Item slot\<close> on the inventory
  it leaves returns \<open>x\<close> and nil.
\<close>

theorem SetItem_then_Item:
  assumes "f iv = Some g" and "0 \<le> slot" and "slot < Size iv"
  shows "SetItem iv slot x w = Returns (None, iv\<lparr>slots := (slots iv)[nat slot := x]\<rparr>, g slot x w)
       \<and> Item (iv\<lparr>slots := (slots iv)[nat slot := x]\<rparr>) slot = Returns (x, None)"
  using assms by (auto simp: SetItem_def Item_def check_def validSlot_def Size_def setItem_def)

theorem SetItem_then_Item_witness:
  "f (example_inventory [Stack_zero, Stack_zero]) = Some record_call
   \<and> (0::int) \<le> 1 \<and> 1 < Size (example_inventory [Stack_zero, Stack_zero])
   \<and> SetItem (example_inventory [Stack_zero, Stack_zero]) 1 (example_stack 7 5) []
      = Returns (None, example_inventory [Stack_zero, example_stack 7 5], [(1, example_stack 7 5)])
   \<and> Item (example_inventory [Stack_zero, example_stack 7 5]) 1
      = Returns (example_stack 7 5, None)"
  using SetItem_then_Item [of "example_inventory [Stack_zero, Stack_zero]"
      record_call 1 "example_stack 7 5" "[]"]
  by (simp add: Size_def record_call_def example_inventory_def)

text \<open>
  Claim C7: on an inventory with at least one slot, for every slot index below 0 or at
  least \<open>Size\<close>, \<open>Item\<close> and \<open>SetItem\<close> return \<open>ErrSlotOutOfRange\<close>; \<open>SetItem\<close> leaves
  the inventory (every slot and \<open>f\<close>) and the outside state as they were, so \<open>f\<close> has not
  been called; \<open>Item\<close> has no state to change.
\<close>

theorem slot_out_of_range:
  assumes "slots iv \<noteq> []" and "slot < 0 \<or> Size iv \<le> slot"
  shows "Item iv slot = Returns (Stack_zero, Some ErrSlotOutOfRange)
       \<and> SetItem iv slot x w = Returns (Some ErrSlotOutOfRange, iv, w)"
  using assms by (auto simp: SetItem_def Item_def check_def validSlot_def Size_def)

theorem slot_out_of_range_witness:
  "slots (example_inventory [example_stack 1 5, Stack_zero]) \<noteq> []
   \<and> Size (example_inventory [example_stack 1 5, Stack_zero]) \<le> 2
   \<and> Item (example_inventory [example_stack 1 5, Stack_zero]) 2
      = Returns (Stack_zero, Some ErrSlotOutOfRange)
   \<and> SetItem (example_inventory [example_stack 1 5, Stack_zero]) 2 (example_stack 7 5) []
      = Returns (Some ErrSlotOutOfRange, example_inventory [example_stack 1 5, Stack_zero], [])
   \<and> Item (example_inventory [example_stack 1 5, Stack_zero]) (- 1)
      = Returns (Stack_zero, Some ErrSlotOutOfRange)
   \<and> SetItem (example_inventory [example_stack 1 5, Stack_zero]) (- 1) (example_stack 7 5) []
      = Returns (Some ErrSlotOutOfRange, example_inventory [example_stack 1 5, Stack_zero], [])"
  using slot_out_of_range [of "example_inventory [example_stack 1 5, Stack_zero]" 2
      "example_stack 7 5" "[]"]
    slot_out_of_range [of "example_inventory [example_stack 1 5, Stack_zero]" "- 1"
      "example_stack 7 5" "[]"]
  by (simp add: Size_def example_inventory_def)

section \<open>Close\<close>

text \<open>
  Claim C9: \<open>Close\<close> returns nil on every inventory; closing again changes nothing more;
  the slots are as before and \<open>f\<close> is the function that does nothing. Afterwards every
  method is usable: \<open>Size\<close>, \<open>Empty\<close> and \<open>Item\<close> return what they returned before,
  \<open>AddItem\<close> and \<open>RemoveItem\<close> do not panic, and on an inventory that had a function
  \<open>f\<close>, \<open>SetItem\<close>, \<open>AddItem\<close> and \<open>RemoveItem\<close> return the same error and leave the
  same slots as they would have without \<open>Close\<close>, only without touching the outside
  state.
\<close>

theorem Close_detaches_only:
  "fst (Close iv) = None
   \<and> slots (snd (Close iv)) = slots iv
   \<and> f (snd (Close iv)) = Some (\<lambda>slot it w. w)
   \<and> Close (snd (Close iv)) = Close iv
   \<and> Size (snd (Close iv)) = Size iv
   \<and> Empty (snd (Close iv)) = Empty iv
   \<and> Item (snd (Close iv)) slot = Item iv slot
   \<and> AddItem (snd (Close iv)) it w \<noteq> Panics
   \<and> RemoveItem (snd (Close iv)) it w \<noteq> Panics
   \<and> (f iv \<noteq> None \<longrightarrow>
        SetItem (snd (Close iv)) slot x w = silenced (SetItem iv slot x w) w
      \<and> AddItem (snd (Close iv)) it w = silenced (AddItem iv it w) w
      \<and> RemoveItem (snd (Close iv)) it w = silenced (RemoveItem iv it w) w)"
proof -
  let ?c = "snd (Close iv)"
  have fc: "f ?c = Some (\<lambda>slot it w. w)" and sc: "slots ?c = slots iv"
    by (simp_all add: Close_def)
  have basic: "fst (Close iv) = None" "Close ?c = Close iv" "Size ?c = Size iv"
    "Empty ?c = Empty iv" "Item ?c slot = Item iv slot"
    by (simp_all add: Close_def Size_def Empty_def Item_def check_def validSlot_def)
  have add: "AddItem ?c it w \<noteq> Panics"
    by (simp add: AddItem_eq_scan [OF fc] split: prod.splits)
  have rem: "RemoveItem ?c it w \<noteq> Panics"
    by (simp add: RemoveItem_eq_scan [OF fc] split: prod.splits)
  have same: "SetItem ?c slot x w = silenced (SetItem iv slot x w) w
      \<and> AddItem ?c it w = silenced (AddItem iv it w) w
      \<and> RemoveItem ?c it w = silenced (RemoveItem iv it w) w" if "f iv \<noteq> None"
  proof -
    from that obtain g where g: "f iv = Some g" by auto
    have "SetItem ?c slot x w = silenced (SetItem iv slot x w) w"
      using g by (simp add: SetItem_def silenced_def check_def validSlot_def Size_def
          setItem_def Close_def)
    moreover have "AddItem ?c it w = silenced (AddItem iv it w) w"
      unfolding AddItem_eq_scan [OF fc] AddItem_eq_scan [OF g] sc
      by (simp add: silenced_def notify_silent Close_def split: prod.splits)
    moreover have "RemoveItem ?c it w = silenced (RemoveItem iv it w) w"
      unfolding RemoveItem_eq_scan [OF fc] RemoveItem_eq_scan [OF g] sc
      by (simp add: silenced_def notify_silent Close_def split: prod.splits)
    ultimately show ?thesis by simp
  qed
  show ?thesis
    using fc sc basic add rem same by blast
qed

theorem Close_detaches_only_witness:
  "f (example_inventory [example_stack 1 5]) \<noteq> None
   \<and> fst (Close (example_inventory [example_stack 1 5])) = None
   \<and> slots (snd (Close (example_inventory [example_stack 1 5]))) = [example_stack 1 5]
   \<and> SetItem (snd (Close (example_inventory [example_stack 1 5]))) 0 (example_stack 2 3) []
      = silenced (SetItem (example_inventory [example_stack 1 5]) 0 (example_stack 2 3) []) []
   \<and> AddItem (snd (Close (example_inventory [example_stack 1 5]))) (example_stack 1 3) []
      = silenced (AddItem (example_inventory [example_stack 1 5]) (example_stack 1 3) []) []
   \<and> RemoveItem (snd (Close (example_inventory [example_stack 1 5]))) (example_stack 1 3) []
      = silenced (RemoveItem (example_inventory [example_stack 1 5]) (example_stack 1 3) []) []"
  using Close_detaches_only [of "example_inventory [example_stack 1 5]" 0 "example_stack 1 3" "[]"
      "example_stack 2 3"]
  by (simp add: example_inventory_def)

section \<open>The number of slots never changes\<close>

lemma pass1_scan_length:
  "pass1_scan ss it i = (r, it', ss', ws) \<Longrightarrow> length ss' = length ss"
  by (induction ss arbitrary: it i r it' ss' ws) (auto split: if_splits prod.splits)

lemma pass2_scan_length:
  "pass2_scan ss it i = (r, it', ss', ws) \<Longrightarrow> length ss' = length ss"
  by (induction ss arbitrary: it i r it' ss' ws) (auto split: if_splits prod.splits)

lemma remove_scan_length:
  "remove_scan ss it r i = (ok, ss', ws) \<Longrightarrow> length ss' = length ss"
  by (induction ss arbitrary: r i ok ss' ws) (auto simp: Let_def split: if_splits prod.splits)

lemma AddItem_returns:
  assumes "f iv = Some g"
  shows "\<exists>e iv' w'. AddItem iv it w = Returns (e, iv', w') \<and> f iv' = f iv
           \<and> length (slots iv') = length (slots iv)"
proof -
  obtain r1 it1 ss1 ws1 where p1: "pass1_scan (slots iv) it 0 = (r1, it1, ss1, ws1)"
    by (cases "pass1_scan (slots iv) it 0")
  obtain r2 it2 ss2 ws2 where p2: "pass2_scan ss1 it1 0 = (r2, it2, ss2, ws2)"
    by (cases "pass2_scan ss1 it1 0")
  have "length ss1 = length (slots iv)" "length ss2 = length ss1"
    using pass1_scan_length [OF p1] pass2_scan_length [OF p2] by simp_all
  then show ?thesis
    by (cases r1) (simp_all add: AddItem_eq_scan [OF assms] p1 p2)
qed

lemma RemoveItem_returns:
  assumes "f iv = Some g"
  shows "\<exists>e iv' w'. RemoveItem iv it w = Returns (e, iv', w') \<and> f iv' = f iv
           \<and> length (slots iv') = length (slots iv)"
proof -
  obtain ok ss' ws where p: "remove_scan (slots iv) it (Stack_Count it) 0 = (ok, ss', ws)"
    by (cases "remove_scan (slots iv) it (Stack_Count it) 0")
  show ?thesis
    using remove_scan_length [OF p] by (simp add: RemoveItem_eq_scan [OF assms] p)
qed

lemma SetItem_returns:
  assumes "f iv = Some g" and "slots iv \<noteq> []"
  shows "\<exists>e iv' w'. SetItem iv slot x w = Returns (e, iv', w') \<and> f iv' = f iv
           \<and> length (slots iv') = length (slots iv)"
proof (cases "validSlot iv slot")
  case True
  then have "SetItem iv slot x w = Returns (None, iv\<lparr>slots := (slots iv)[nat slot := x]\<rparr>, g slot x w)"
    using assms by (simp add: SetItem_def check_def Size_def validSlot_def setItem_def)
  then show ?thesis by simp
next
  case False
  then have "SetItem iv slot x w = Returns (Some ErrSlotOutOfRange, iv, w)"
    using assms by (simp add: SetItem_def check_def Size_def)
  then show ?thesis by simp
qed

lemma do_call_keeps_size:
  assumes "f iv \<noteq> None" and "slots iv \<noteq> []"
  shows "\<exists>iv' w'. do_call c iv w = Returns (iv', w') \<and> f iv' \<noteq> None
           \<and> length (slots iv') = length (slots iv)"
proof -
  from assms obtain g where g: "f iv = Some g" by auto
  show ?thesis
  proof (cases c)
    case (CallItem slot)
    then show ?thesis using assms by (simp add: Item_def check_def Size_def)
  next
    case (CallSetItem slot x)
    from SetItem_returns [OF g assms(2), of slot x w] obtain e iv' w'
      where "SetItem iv slot x w = Returns (e, iv', w')" "f iv' = f iv"
        "length (slots iv') = length (slots iv)"
      by blast
    then show ?thesis using CallSetItem g by simp
  next
    case (CallAddItem it)
    from AddItem_returns [OF g, of it w] obtain e iv' w'
      where "AddItem iv it w = Returns (e, iv', w')" "f iv' = f iv"
        "length (slots iv') = length (slots iv)"
      by blast
    then show ?thesis using CallAddItem g by simp
  next
    case (CallRemoveItem it)
    from RemoveItem_returns [OF g, of it w] obtain e iv' w'
      where "RemoveItem iv it w = Returns (e, iv', w')" "f iv' = f iv"
        "length (slots iv') = length (slots iv)"
      by blast
    then show ?thesis using CallRemoveItem g by simp
  next
    case CallEmpty
    then show ?thesis using assms by simp
  next
    case CallSize
    then show ?thesis using assms by simp
  next
    case CallClose
    then show ?thesis by (simp add: Close_def)
  qed
qed

lemma do_calls_keep_size:
  "f iv \<noteq> None \<Longrightarrow> slots iv \<noteq> [] \<Longrightarrow>
   \<exists>iv' w'. do_calls cs iv w = Returns (iv', w') \<and> length (slots iv') = length (slots iv)"
proof (induction cs arbitrary: iv w)
  case Nil
  then show ?case by simp
next
  case (Cons c cs)
  from do_call_keeps_size [OF Cons.prems, of c w] obtain iv1 w1
    where one: "do_call c iv w = Returns (iv1, w1)" "f iv1 \<noteq> None"
      "length (slots iv1) = length (slots iv)"
    by blast
  with Cons.prems have "slots iv1 \<noteq> []" by auto
  from Cons.IH [OF one(2) this, of w1] one show ?case by auto
qed

text \<open>
  Claim C8: an inventory returned by \<open>New size f\<close> has \<open>Size\<close> equal to \<open>size\<close>, and
  every sequence of calls of \<open>Item\<close>, \<open>SetItem\<close>, \<open>AddItem\<close>, \<open>RemoveItem\<close>, \<open>Empty\<close>,
  \<open>Size\<close> and \<open>Close\<close> on it runs to its end without a panic and leaves an inventory
  whose \<open>Size\<close> is still \<open>size\<close>.
\<close>

theorem Size_constant:
  assumes "New sz h = Returns iv"
  shows "Size iv = sz \<and> (\<exists>iv' w'. do_calls cs iv w = Returns (iv', w') \<and> Size iv' = sz)"
proof -
  from assms have pos: "0 < sz"
    and iv: "iv = \<lparr>slots = replicate (nat sz) Stack_zero,
                   f = (case h of None \<Rightarrow> Some (\<lambda>slot it w. w) | Some k \<Rightarrow> Some k)\<rparr>"
    by (auto simp: New_def split: if_splits)
  have ok: "f iv \<noteq> None" "slots iv \<noteq> []" and len: "int (length (slots iv)) = sz"
    using pos by (auto simp: iv split: option.splits)
  from do_calls_keep_size [OF ok, of cs w] len show ?thesis
    by (auto simp: Size_def)
qed

theorem Size_constant_witness:
  "New 2 (Some record_call) = Returns (example_inventory [Stack_zero, Stack_zero])
   \<and> Size (example_inventory [Stack_zero, Stack_zero]) = 2
   \<and> (\<exists>iv' w'. do_calls [CallAddItem (example_stack 1 70), CallSetItem 0 (example_stack 2 3),
                           CallItem 5, CallRemoveItem (example_stack 1 100), CallEmpty, CallSize,
                           CallClose, CallAddItem (example_stack 2 200)]
                  (example_inventory [Stack_zero, Stack_zero]) [] = Returns (iv', w')
              \<and> Size iv' = 2)"
proof -
  have new: "New 2 (Some record_call) = Returns (example_inventory [Stack_zero, Stack_zero])"
    by (simp add: New_def example_inventory_def numeral_2_eq_2)
  show ?thesis
    using new Size_constant [OF new] by blast
qed

section \<open>AddItem: what a failed call leaves behind\<close>

lemma AddStack_item:
  "Stack_AddStack s it = (a, b) \<Longrightarrow> item a = item s \<and> item b = item it"
  by (auto simp: Stack_AddStack_def Let_def split: if_splits)

lemma fill_slot_item: "item it' = item it \<Longrightarrow> fill_slot it' = fill_slot it"
  by (rule ext) (simp add: fill_slot_def Stack_Item_def Stack_MaxCount_def Stack_Comparable_def)

lemma AddStack_remainder:
  assumes "Stack_AddStack s it = (a, b)" and "\<not> Stack_Empty b" and "\<not> Stack_Empty s"
  shows "a = fill_slot it s"
  using assms
  by (auto simp: Stack_AddStack_def fill_slot_def Let_def Stack_Empty_def Stack_Count_def
      min_def split: if_splits)

lemma AddStack_new_remainder:
  assumes "Stack_AddStack (NewStack (Stack_Item it) 0) it = (a, b)" and "\<not> Stack_Empty b"
  shows "a = \<lparr>item = Stack_Item it, count = nat (Stack_MaxCount it)\<rparr>"
  using assms
  by (auto simp: Stack_AddStack_def Let_def Stack_Empty_def Stack_Count_def NewStack_def
      Stack_Item_def Stack_MaxCount_def Stack_Comparable_def min_def
      split: if_splits option.splits)

lemma fill_slot_nonempty: "\<not> Stack_Empty s \<Longrightarrow> \<not> Stack_Empty (fill_slot it s)"
  by (auto simp: fill_slot_def Stack_Empty_def Stack_Count_def)

lemma pass1_scan_fails:
  "pass1_scan ss it i = (False, it', ss', ws) \<Longrightarrow>
   ss' = map (\<lambda>s. if Stack_Empty s then s else fill_slot it s) ss \<and> item it' = item it"
proof (induction ss arbitrary: it i ss' ws)
  case Nil
  then show ?case by simp
next
  case (Cons s ss)
  show ?case
  proof (cases "Stack_Empty s")
    case True
    with Cons.prems obtain ss1 where "pass1_scan ss it (Suc i) = (False, it', ss1, ws)"
      and "ss' = s # ss1"
      by (auto split: prod.splits)
    with Cons.IH [of it "Suc i" ss1 ws] True show ?thesis by simp
  next
    case False
    obtain a b where ab: "Stack_AddStack s it = (a, b)" by (cases "Stack_AddStack s it")
    with Cons.prems False have nb: "\<not> Stack_Empty b" by (auto split: if_splits)
    with Cons.prems False ab obtain ss1 ws1
      where rec: "pass1_scan ss b (Suc i) = (False, it', ss1, ws1)" and ss': "ss' = a # ss1"
      by (auto split: prod.splits)
    have ib: "item b = item it" using AddStack_item [OF ab] by simp
    from Cons.IH [OF rec] AddStack_remainder [OF ab nb False] ss' False ib
    show ?thesis by (simp add: fill_slot_item [OF ib])
  qed
qed

lemma pass2_scan_fails:
  "pass2_scan ss it i = (False, it', ss', ws) \<Longrightarrow>
   ss' = map (\<lambda>s. if Stack_Empty s
                    then \<lparr>item = Stack_Item it, count = nat (Stack_MaxCount it)\<rparr> else s) ss"
proof (induction ss arbitrary: it i ss' ws)
  case Nil
  then show ?case by simp
next
  case (Cons s ss)
  show ?case
  proof (cases "Stack_Empty s")
    case False
    with Cons.prems obtain ss1 where "pass2_scan ss it (Suc i) = (False, it', ss1, ws)"
      and "ss' = s # ss1"
      by (auto split: prod.splits)
    with Cons.IH [of it "Suc i" ss1 ws] False show ?thesis by simp
  next
    case True
    obtain a b where ab: "Stack_AddStack (NewStack (Stack_Item it) 0) it = (a, b)"
      by (cases "Stack_AddStack (NewStack (Stack_Item it) 0) it")
    with Cons.prems True have nb: "\<not> Stack_Empty b" by (auto split: if_splits)
    with Cons.prems True ab obtain ss1 ws1
      where rec: "pass2_scan ss b (Suc i) = (False, it', ss1, ws1)" and ss': "ss' = a # ss1"
      by (auto split: prod.splits)
    have ib: "item b = item it" using AddStack_item [OF ab] by simp
    then have same: "Stack_Item b = Stack_Item it" "Stack_MaxCount b = Stack_MaxCount it"
      by (simp_all add: Stack_Item_def Stack_MaxCount_def)
    from Cons.IH [OF rec] AddStack_new_remainder [OF ab nb] ss' True same
    show ?thesis by simp
  qed
qed

lemma fill_slot_full:
  "Stack_Empty (fill_slot it s) \<or> Stack_Comparable (fill_slot it s) it \<Longrightarrow>
   Stack_MaxCount (fill_slot it s) \<le> Stack_Count (fill_slot it s)"
  by (auto simp: fill_slot_def Stack_Empty_def Stack_Count_def Stack_MaxCount_def
      Stack_Comparable_def Stack_Item_def split: if_splits option.splits)

text \<open>
  Claim C5: when \<open>AddItem it\<close> returns its error (on an inventory with a function
  \<open>f\<close>), the slots it returns are the written ones, nothing is rolled back: every slot
  that was empty holds a full stack of the resource of \<open>it\<close>, every non-empty comparable
  slot below its maximum has been topped up to the maximum, and every other slot is as
  it was. So in the inventory left behind every slot that is empty or comparable to
  \<open>it\<close> holds at least its maximum quantity: no capacity for the resource is left.
\<close>

theorem AddItem_failure_fills:
  assumes "f iv = Some g" and "AddItem iv it w = Returns (Some ErrCouldNotAdd, iv', w')"
  shows "slots iv' = map (fill_slot it) (slots iv)
       \<and> (\<forall>s \<in> set (slots iv'). Stack_Empty s \<or> Stack_Comparable s it
             \<longrightarrow> Stack_MaxCount s \<le> Stack_Count s)"
proof -
  obtain r1 it1 ss1 ws1 where p1: "pass1_scan (slots iv) it 0 = (r1, it1, ss1, ws1)"
    by (cases "pass1_scan (slots iv) it 0")
  obtain r2 it2 ss2 ws2 where p2: "pass2_scan ss1 it1 0 = (r2, it2, ss2, ws2)"
    by (cases "pass2_scan ss1 it1 0")
  from assms(2) have r: "\<not> r1" "\<not> r2" and iv': "slots iv' = ss2"
    unfolding AddItem_eq_scan [OF assms(1)] p1 by (auto simp: p2 split: if_splits)
  from pass1_scan_fails [of "slots iv" it 0 it1 ss1 ws1] p1 r
  have ss1: "ss1 = map (\<lambda>s. if Stack_Empty s then s else fill_slot it s) (slots iv)"
    and i1: "item it1 = item it" by simp_all
  from i1 have same: "Stack_Item it1 = Stack_Item it" "Stack_MaxCount it1 = Stack_MaxCount it"
    by (simp_all add: Stack_Item_def Stack_MaxCount_def)
  from pass2_scan_fails [of ss1 it1 0 it2 ss2 ws2] p2 r
  have "ss2 = map (\<lambda>s. if Stack_Empty s
                    then \<lparr>item = Stack_Item it, count = nat (Stack_MaxCount it)\<rparr> else s) ss1"
    by (simp add: same)
  then have eq: "ss2 = map (fill_slot it) (slots iv)"
    unfolding ss1 by (auto simp: fill_slot_nonempty) (simp add: fill_slot_def)
  show ?thesis
    unfolding iv' eq using fill_slot_full by auto
qed

theorem AddItem_failure_fills_witness:
  "f (example_inventory [example_stack 1 40, example_stack 2 10, Stack_zero]) = Some record_call
   \<and> AddItem (example_inventory [example_stack 1 40, example_stack 2 10, Stack_zero])
        (example_stack 1 100) []
      = Returns (Some ErrCouldNotAdd,
          example_inventory [example_stack 1 64, example_stack 2 10, example_stack 1 64],
          [(0, example_stack 1 64), (1, example_stack 2 10), (2, example_stack 1 64)])
   \<and> slots (example_inventory [example_stack 1 64, example_stack 2 10, example_stack 1 64])
      = map (fill_slot (example_stack 1 100))
          (slots (example_inventory [example_stack 1 40, example_stack 2 10, Stack_zero]))
   \<and> Stack_MaxCount (example_stack 1 64) \<le> Stack_Count (example_stack 1 64)"
proof -
  let ?iv = "example_inventory [example_stack 1 40, example_stack 2 10, Stack_zero]"
  let ?iv' = "example_inventory [example_stack 1 64, example_stack 2 10, example_stack 1 64]"
  have fs: "f ?iv = Some record_call"
    by (simp add: example_inventory_def)
  have run: "AddItem ?iv (example_stack 1 100) []
      = Returns (Some ErrCouldNotAdd, ?iv',
          [(0, example_stack 1 64), (1, example_stack 2 10), (2, example_stack 1 64)])"
    unfolding AddItem_eq_scan [OF fs]
    by (simp add: example_inventory_def record_call_def notify_def stack_defs Let_def)
  from AddItem_failure_fills [OF fs run] fs run show ?thesis
    by (simp add: example_inventory_def fill_slot_def stack_defs)
qed

section \<open>AddItem: the first pass\<close>

text \<open>
  Claim C2, as stated: in the first pass only slots comparable to the incoming stack are
  combined, written back and notified. \<open>AddItem\<close> itself never tests comparability: it
  calls \<open>AddStack\<close> and \<open>setItem\<close> on every non-empty slot. With one slot holding 5 of
  resource 2 and an incoming stack of 1 of resource 1, the slot is written back (with
  the content it had) and \<open>f\<close> is called for slot 0.
\<close>

theorem AddItem_notifies_incomparable_slot:
  "\<not> Stack_Comparable (example_stack 2 5) (example_stack 1 1)
   \<and> \<not> Stack_Empty (example_stack 2 5)
   \<and> AddItem_pass1 1 (example_inventory [example_stack 2 5]) (example_stack 1 1) 0 []
      = Returns (False, example_stack 1 1, example_inventory [example_stack 2 5],
                 [(0, example_stack 2 5)])
   \<and> AddItem (example_inventory [example_stack 2 5]) (example_stack 1 1) []
      = Returns (Some ErrCouldNotAdd, example_inventory [example_stack 2 5],
                 [(0, example_stack 2 5)])"
proof -
  have fs: "f (example_inventory ss) = Some record_call" for ss
    by (simp add: example_inventory_def)
  have "AddItem_pass1 1 (example_inventory [example_stack 2 5]) (example_stack 1 1) 0 []
      = Returns (False, example_stack 1 1, example_inventory [example_stack 2 5],
                 [(0, example_stack 2 5)])"
    using pass1_refine [of "example_inventory [example_stack 2 5]" record_call "[]"
        "[example_stack 2 5]" "example_stack 1 1" "[]"]
    by (simp add: example_inventory_def record_call_def notify_def stack_defs)
  moreover have "AddItem (example_inventory [example_stack 2 5]) (example_stack 1 1) []
      = Returns (Some ErrCouldNotAdd, example_inventory [example_stack 2 5],
                 [(0, example_stack 2 5)])"
    unfolding AddItem_eq_scan [OF fs]
    by (simp add: example_inventory_def record_call_def notify_def stack_defs)
  ultimately show ?thesis by (simp add: stack_defs)
qed

lemma nonempty_slots_Cons:
  "nonempty_slots (s # ss) =
     (if Stack_Empty s then [] else [0]) @ map Suc (nonempty_slots ss)"
proof -
  have "[0..<length (s # ss)] = 0 # map Suc [0..<length ss]"
    by (simp add: upt_conv_Cons map_Suc_upt del: upt_Suc)
  then show ?thesis
    by (simp add: nonempty_slots_def filter_map comp_def del: upt_Suc)
qed

lemma pass1_scan_indices:
  "pass1_scan ss it i = (r, it', ss', ws) \<Longrightarrow>
   map fst ws = take (length ws) (map (\<lambda>j. i + j) (nonempty_slots ss))
   \<and> (\<not> r \<longrightarrow> length ws = length (nonempty_slots ss))"
proof (induction ss arbitrary: it i r it' ss' ws)
  case Nil
  then show ?case by (simp add: nonempty_slots_def)
next
  case (Cons s ss)
  have shift: "map (\<lambda>j. i + j) (map Suc xs) = map (\<lambda>j. Suc i + j) xs" for xs
    by simp
  show ?case
  proof (cases "Stack_Empty s")
    case True
    with Cons.prems obtain ss1 where "pass1_scan ss it (Suc i) = (r, it', ss1, ws)"
      by (auto split: prod.splits)
    from Cons.IH [OF this] True show ?thesis
      by (simp add: nonempty_slots_Cons comp_def)
  next
    case False
    obtain a b where ab: "Stack_AddStack s it = (a, b)" by (cases "Stack_AddStack s it")
    show ?thesis
    proof (cases "Stack_Empty b")
      case True
      with Cons.prems False ab have "ws = [(i, a)]" "r" by auto
      then show ?thesis using False by (simp add: nonempty_slots_Cons)
    next
      case nb: False
      with Cons.prems False ab obtain ss1 ws1
        where rec: "pass1_scan ss b (Suc i) = (r, it', ss1, ws1)" and ws: "ws = (i, a) # ws1"
        by (auto split: prod.splits)
      from Cons.IH [OF rec] ws False show ?thesis
        by (simp add: nonempty_slots_Cons comp_def)
    qed
  qed
qed

lemma pass1_scan_written:
  "pass1_scan ss it i = (r, it', ss', ws) \<Longrightarrow> (j, a) \<in> set ws \<Longrightarrow>
   i \<le> j \<and> j - i < length ss \<and> ss' ! (j - i) = a"
proof (induction ss arbitrary: it i r it' ss' ws)
  case Nil
  then show ?case by simp
next
  case (Cons s ss)
  show ?case
  proof (cases "Stack_Empty s")
    case True
    with Cons.prems obtain ss1 where rec: "pass1_scan ss it (Suc i) = (r, it', ss1, ws)"
      and ss': "ss' = s # ss1"
      by (auto split: prod.splits)
    from Cons.IH [OF rec Cons.prems(2)] ss' show ?thesis
      by (auto simp: Suc_diff_le)
  next
    case False
    obtain a0 b where ab: "Stack_AddStack s it = (a0, b)" by (cases "Stack_AddStack s it")
    show ?thesis
    proof (cases "Stack_Empty b")
      case True
      with Cons.prems False ab show ?thesis by auto
    next
      case nb: False
      with Cons.prems False ab obtain ss1 ws1
        where rec: "pass1_scan ss b (Suc i) = (r, it', ss1, ws1)" and ws: "ws = (i, a0) # ws1"
          and ss': "ss' = a0 # ss1"
        by (auto split: prod.splits)
      show ?thesis
      proof (cases "(j, a) = (i, a0)")
        case True
        then show ?thesis using ss' by simp
      next
        case False
        with Cons.prems(2) ws have "(j, a) \<in> set ws1" by auto
        from Cons.IH [OF rec this] ss' show ?thesis
          by (auto simp: Suc_diff_le)
      qed
    qed
  qed
qed

lemma AddStack_incomparable:
  "\<not> Stack_Comparable s it \<Longrightarrow> Stack_AddStack s it = (s, it)"
  by (simp add: Stack_AddStack_def)

lemma pass1_scan_unchanged:
  "pass1_scan ss it i = (r, it', ss', ws) \<Longrightarrow> j < length ss \<Longrightarrow>
   Stack_Empty (ss ! j) \<or> \<not> Stack_Comparable (ss ! j) it \<Longrightarrow> ss' ! j = ss ! j"
proof (induction ss arbitrary: it i r it' ss' ws j)
  case Nil
  then show ?case by simp
next
  case (Cons s ss)
  show ?case
  proof (cases "Stack_Empty s")
    case True
    with Cons.prems obtain ss1 where rec: "pass1_scan ss it (Suc i) = (r, it', ss1, ws)"
      and ss': "ss' = s # ss1"
      by (auto split: prod.splits)
    show ?thesis
    proof (cases j)
      case 0
      then show ?thesis using ss' by simp
    next
      case (Suc k)
      with Cons.IH [OF rec, of k] Cons.prems ss' show ?thesis by simp
    qed
  next
    case False
    obtain a b where ab: "Stack_AddStack s it = (a, b)" by (cases "Stack_AddStack s it")
    have ib: "item b = item it" using AddStack_item [OF ab] by simp
    show ?thesis
    proof (cases j)
      case 0
      with Cons.prems False have "\<not> Stack_Comparable s it" by simp
      with ab have "a = s" by (simp add: AddStack_incomparable)
      with Cons.prems(1) False ab 0 show ?thesis by (auto split: if_splits prod.splits)
    next
      case (Suc k)
      show ?thesis
      proof (cases "Stack_Empty b")
        case True
        with Cons.prems False ab Suc show ?thesis by auto
      next
        case nb: False
        with Cons.prems False ab obtain ss1 ws1
          where rec: "pass1_scan ss b (Suc i) = (r, it', ss1, ws1)" and ss': "ss' = a # ss1"
          by (auto split: prod.splits)
        from Cons.prems Suc ib
        have "Stack_Empty (ss ! k) \<or> \<not> Stack_Comparable (ss ! k) b" and "k < length ss"
          by (auto simp: Stack_Comparable_def)
        from Cons.IH [OF rec this(2) this(1)] ss' Suc show ?thesis by simp
      qed
    qed
  qed
qed

lemma AddStack_count:
  "Stack_AddStack s it = (a, b) \<Longrightarrow>
   Stack_Count a + Stack_Count b = Stack_Count s + Stack_Count it"
  by (auto simp: Stack_AddStack_def Let_def Stack_Count_def min_def split: if_splits)

lemma pass1_scan_total:
  "pass1_scan ss it i = (r, it', ss', ws) \<Longrightarrow>
   sum_list (map Stack_Count ss') + Stack_Count it' = sum_list (map Stack_Count ss) + Stack_Count it"
proof (induction ss arbitrary: it i r it' ss' ws)
  case Nil
  then show ?case by simp
next
  case (Cons s ss)
  show ?case
  proof (cases "Stack_Empty s")
    case True
    with Cons.prems obtain ss1 where rec: "pass1_scan ss it (Suc i) = (r, it', ss1, ws)"
      and ss': "ss' = s # ss1"
      by (auto split: prod.splits)
    from Cons.IH [OF rec] ss' show ?thesis by simp
  next
    case False
    obtain a b where ab: "Stack_AddStack s it = (a, b)" by (cases "Stack_AddStack s it")
    show ?thesis
    proof (cases "Stack_Empty b")
      case True
      with Cons.prems False ab have "ss' = a # ss" "it' = b" by auto
      with AddStack_count [OF ab] show ?thesis by simp
    next
      case nb: False
      with Cons.prems False ab obtain ss1 ws1
        where rec: "pass1_scan ss b (Suc i) = (r, it', ss1, ws1)" and ss': "ss' = a # ss1"
        by (auto split: prod.splits)
      from Cons.IH [OF rec] AddStack_count [OF ab] ss' show ?thesis by simp
    qed
  qed
qed

lemma pass1_scan_no_write:
  "pass1_scan ss it i = (r, it', ss', []) \<Longrightarrow> \<not> r \<and> it' = it"
  by (induction ss arbitrary: i ss') (auto split: if_splits prod.splits)

lemma pass1_scan_returned:
  "pass1_scan ss it i = (r, it', ss', ws) \<Longrightarrow>
   (r \<longrightarrow> ws \<noteq> [] \<and> Stack_Empty it') \<and> (\<not> r \<and> ws \<noteq> [] \<longrightarrow> \<not> Stack_Empty it')
   \<and> item it' = item it"
proof (induction ss arbitrary: it i r it' ss' ws)
  case Nil
  then show ?case by simp
next
  case (Cons s ss)
  show ?case
  proof (cases "Stack_Empty s")
    case True
    with Cons.prems obtain ss1 where rec: "pass1_scan ss it (Suc i) = (r, it', ss1, ws)"
      by (auto split: prod.splits)
    from Cons.IH [OF rec] show ?thesis .
  next
    case False
    obtain a b where ab: "Stack_AddStack s it = (a, b)" by (cases "Stack_AddStack s it")
    have ib: "item b = item it" using AddStack_item [OF ab] by simp
    show ?thesis
    proof (cases "Stack_Empty b")
      case True
      with Cons.prems False ab ib show ?thesis by auto
    next
      case nb: False
      with Cons.prems False ab obtain ss1 ws1
        where rec: "pass1_scan ss b (Suc i) = (r, it', ss1, ws1)" and ws: "ws = (i, a) # ws1"
        by (auto split: prod.splits)
      have "ws1 = [] \<Longrightarrow> \<not> r \<and> it' = b"
        using rec pass1_scan_no_write by blast
      with Cons.IH [OF rec] ws ib nb show ?thesis by auto
    qed
  qed
qed

lemma pass1_scan_topped:
  "pass1_scan ss it i = (r, it', ss', ws) \<Longrightarrow> (j, a) \<in> set (if r then butlast ws else ws) \<Longrightarrow>
   i \<le> j \<and> a = fill_slot it (ss ! (j - i))"
proof (induction ss arbitrary: it i r it' ss' ws)
  case Nil
  then show ?case by simp
next
  case (Cons s ss)
  show ?case
  proof (cases "Stack_Empty s")
    case True
    with Cons.prems obtain ss1 where rec: "pass1_scan ss it (Suc i) = (r, it', ss1, ws)"
      by (auto split: prod.splits)
    from Cons.IH [OF rec Cons.prems(2)] show ?thesis
      by (auto simp: Suc_diff_le)
  next
    case False
    obtain a0 b where ab: "Stack_AddStack s it = (a0, b)" by (cases "Stack_AddStack s it")
    have ib: "item b = item it" using AddStack_item [OF ab] by simp
    show ?thesis
    proof (cases "Stack_Empty b")
      case True
      with Cons.prems False ab show ?thesis by auto
    next
      case nb: False
      with Cons.prems False ab obtain ss1 ws1
        where rec: "pass1_scan ss b (Suc i) = (r, it', ss1, ws1)" and ws: "ws = (i, a0) # ws1"
        by (auto split: prod.splits)
      have a0: "a0 = fill_slot it s" by (rule AddStack_remainder [OF ab nb False])
      have "r \<Longrightarrow> ws1 \<noteq> []" using pass1_scan_returned [OF rec] by simp
      then have split: "(if r then butlast ws else ws) = (i, a0) # (if r then butlast ws1 else ws1)"
        using ws by simp
      show ?thesis
      proof (cases "(j, a) = (i, a0)")
        case True
        then show ?thesis using a0 by simp
      next
        case False
        with Cons.prems(2) split have "(j, a) \<in> set (if r then butlast ws1 else ws1)" by auto
        from Cons.IH [OF rec this] show ?thesis
          by (auto simp: Suc_diff_le fill_slot_item [OF ib])
      qed
    qed
  qed
qed

text \<open>
  Claim C2, amended: the first pass visits the slots in ascending order. An empty slot is
  skipped: it is neither written nor notified. Every non-empty slot the pass reaches,
  whether or not its stack is comparable to the incoming stack, is combined with the
  current incoming stack; the filled result is written back to the slot, with its
  change notification, and the uncombined remainder replaces the incoming stack. If the
  remainder is then empty the call returns nil at once; otherwise the pass goes on with
  the next slot, until the slots run out. A slot holding an incomparable stack is
  written back with the content it had, and its notification is still triggered.

  The theorem: the pass does not panic and returns what \<open>pass1_scan\<close>, which is this
  description as a recursion over the slots, computes. The notified slots are an initial
  segment of the non-empty slots in ascending order, each notified with the stack the
  slot holds afterwards. The pass returns nil only after a write that left the remainder
  empty; when it does not, every non-empty slot has been written and the remainder,
  after a write, is not empty. Every write but the one that emptied the remainder
  topped its slot up (\<open>fill_slot\<close>: a comparable stack below its maximum is at its
  maximum, any other keeps its content). Empty and incomparable slots hold what they
  held. The remainder is of the resource of the incoming stack, and the quantities in
  the slots and the remainder add up to what they were.
\<close>

theorem AddItem_pass1_combines_nonempty_slots:
  assumes "f iv = Some g"
  shows "\<exists>returned it' ss' writes.
      pass1_scan (slots iv) it 0 = (returned, it', ss', writes)
    \<and> AddItem_pass1 (length (slots iv)) iv it 0 w
        = Returns (returned, it', iv\<lparr>slots := ss'\<rparr>, notify g writes w)
    \<and> length ss' = length (slots iv)
    \<and> map fst writes = take (length writes) (nonempty_slots (slots iv))
    \<and> (\<forall>(slot, a) \<in> set writes. ss' ! slot = a)
    \<and> (returned \<longrightarrow> writes \<noteq> [] \<and> Stack_Empty it')
    \<and> (\<not> returned \<longrightarrow> length writes = length (nonempty_slots (slots iv))
                        \<and> (writes \<noteq> [] \<longrightarrow> \<not> Stack_Empty it'))
    \<and> (\<forall>(slot, a) \<in> set (if returned then butlast writes else writes).
          a = fill_slot it (slots iv ! slot))
    \<and> (\<forall>slot < length (slots iv).
          Stack_Empty (slots iv ! slot) \<or> \<not> Stack_Comparable (slots iv ! slot) it
          \<longrightarrow> ss' ! slot = slots iv ! slot)
    \<and> Stack_Item it' = Stack_Item it
    \<and> sum_list (map Stack_Count ss') + Stack_Count it'
        = sum_list (map Stack_Count (slots iv)) + Stack_Count it"
proof -
  obtain r1 it1 ss1 ws1 where p1: "pass1_scan (slots iv) it 0 = (r1, it1, ss1, ws1)"
    by (cases "pass1_scan (slots iv) it 0")
  have run: "AddItem_pass1 (length (slots iv)) iv it 0 w
      = Returns (r1, it1, iv\<lparr>slots := ss1\<rparr>, notify g ws1 w)"
    using pass1_refine [of iv g "[]" "slots iv" it w] assms p1 by simp
  have len: "length ss1 = length (slots iv)"
    by (rule pass1_scan_length [OF p1])
  have idx: "map fst ws1 = take (length ws1) (nonempty_slots (slots iv))"
    and all: "\<not> r1 \<longrightarrow> length ws1 = length (nonempty_slots (slots iv))"
    using pass1_scan_indices [OF p1] by simp_all
  have val: "\<forall>(slot, a) \<in> set ws1. ss1 ! slot = a"
    using pass1_scan_written [OF p1] by auto
  have ret: "r1 \<longrightarrow> ws1 \<noteq> [] \<and> Stack_Empty it1" "\<not> r1 \<and> ws1 \<noteq> [] \<longrightarrow> \<not> Stack_Empty it1"
    and itm: "Stack_Item it1 = Stack_Item it"
    using pass1_scan_returned [OF p1] by (simp_all add: Stack_Item_def)
  have top: "\<forall>(slot, a) \<in> set (if r1 then butlast ws1 else ws1). a = fill_slot it (slots iv ! slot)"
    using pass1_scan_topped [OF p1] by fastforce
  have same: "\<forall>slot < length (slots iv).
      Stack_Empty (slots iv ! slot) \<or> \<not> Stack_Comparable (slots iv ! slot) it
      \<longrightarrow> ss1 ! slot = slots iv ! slot"
    using pass1_scan_unchanged [OF p1] by blast
  note tot = pass1_scan_total [OF p1]
  show ?thesis
    by (intro exI [of _ r1] exI [of _ it1] exI [of _ ss1] exI [of _ ws1] conjI
        p1 run len idx val top same itm tot)
       (use ret all in blast)+
qed

theorem AddItem_pass1_combines_nonempty_slots_witness:
  "f (example_inventory [example_stack 1 40, Stack_zero, example_stack 2 10, example_stack 1 64])
     = Some record_call
   \<and> AddItem_pass1
        (length (slots (example_inventory
           [example_stack 1 40, Stack_zero, example_stack 2 10, example_stack 1 64])))
        (example_inventory [example_stack 1 40, Stack_zero, example_stack 2 10, example_stack 1 64])
        (example_stack 1 100) 0 []
      = Returns (False, example_stack 1 76,
          example_inventory [example_stack 1 64, Stack_zero, example_stack 2 10, example_stack 1 64],
          [(0, example_stack 1 64), (2, example_stack 2 10), (3, example_stack 1 64)])
   \<and> f (example_inventory [example_stack 1 40, example_stack 1 10]) = Some record_call
   \<and> AddItem_pass1 (length (slots (example_inventory [example_stack 1 40, example_stack 1 10])))
        (example_inventory [example_stack 1 40, example_stack 1 10]) (example_stack 1 20) 0 []
      = Returns (True, example_stack 1 0,
          example_inventory [example_stack 1 60, example_stack 1 10], [(0, example_stack 1 60)])"
proof -
  let ?iv = "example_inventory
    [example_stack 1 40, Stack_zero, example_stack 2 10, example_stack 1 64]"
  let ?iv2 = "example_inventory [example_stack 1 40, example_stack 1 10]"
  have fs: "f (example_inventory ss) = Some record_call" for ss
    by (simp add: example_inventory_def)
  from AddItem_pass1_combines_nonempty_slots [OF fs, of _ "example_stack 1 100" "[]"]
  obtain returned it' ss' writes
    where "pass1_scan (slots ?iv) (example_stack 1 100) 0 = (returned, it', ss', writes)"
      and "AddItem_pass1 (length (slots ?iv)) ?iv (example_stack 1 100) 0 []
        = Returns (returned, it', ?iv\<lparr>slots := ss'\<rparr>, notify record_call writes [])"
    by blast
  then have one: "AddItem_pass1 (length (slots ?iv)) ?iv (example_stack 1 100) 0 []
      = Returns (False, example_stack 1 76,
          example_inventory [example_stack 1 64, Stack_zero, example_stack 2 10, example_stack 1 64],
          [(0, example_stack 1 64), (2, example_stack 2 10), (3, example_stack 1 64)])"
    by (auto simp: example_inventory_def record_call_def notify_def stack_defs Let_def)
  from AddItem_pass1_combines_nonempty_slots [OF fs, of _ "example_stack 1 20" "[]"]
  obtain returned it' ss' writes
    where "pass1_scan (slots ?iv2) (example_stack 1 20) 0 = (returned, it', ss', writes)"
      and "AddItem_pass1 (length (slots ?iv2)) ?iv2 (example_stack 1 20) 0 []
        = Returns (returned, it', ?iv2\<lparr>slots := ss'\<rparr>, notify record_call writes [])"
    by blast
  then have two: "AddItem_pass1 (length (slots ?iv2)) ?iv2 (example_stack 1 20) 0 []
      = Returns (True, example_stack 1 0,
          example_inventory [example_stack 1 60, example_stack 1 10], [(0, example_stack 1 60)])"
    by (auto simp: example_inventory_def record_call_def notify_def stack_defs Let_def)
  show ?thesis by (intro conjI fs one two)
qed

section \<open>RemoveItem\<close>

text \<open>
  For a request of at least one unit the loop of \<open>RemoveItem\<close> is the scan of the
  specification: the remainder is positive whenever a slot is looked at, so it is still
  positive when the slots run out.
\<close>

lemma remove_claimed_positive:
  "0 < r \<Longrightarrow> remove_claimed ss it r i = remove_scan ss it r i"
  by (induction ss arbitrary: r i) (auto simp: Let_def)

lemma RemoveItem_positive_as_claimed:
  assumes "f iv = Some g" and "0 < Stack_Count it"
  shows "RemoveItem iv it w =
     (case remove_claimed (slots iv) it (Stack_Count it) 0 of
        (ok, ss', writes) \<Rightarrow>
          Returns (if ok then None else Some ErrCouldNotRemove, iv\<lparr>slots := ss'\<rparr>,
                   notify g writes w))"
  by (simp add: RemoveItem_eq_scan [OF assms(1)] remove_claimed_positive [OF assms(2)])

lemma RemoveItem_example:
  "RemoveItem
        (example_inventory [example_stack 1 10, example_stack 2 7, Stack_zero, example_stack 1 64])
        (example_stack 1 50) []
      = Returns (None,
          example_inventory [example_stack 1 0, example_stack 2 7, Stack_zero, example_stack 1 24],
          [(0, example_stack 1 0), (3, example_stack 1 24)])"
proof -
  have fs: "f (example_inventory ss) = Some record_call" for ss
    by (simp add: example_inventory_def)
  show ?thesis
    unfolding RemoveItem_eq_scan [OF fs]
    by (simp add: example_inventory_def record_call_def notify_def stack_defs Let_def)
qed

text \<open>
  Claim C3 at quantity 0: the remainder is 0 from the start, so by the claim the call
  succeeds and cannot fail, the remainder never being positive. In the code the test
  \<open>toRemove <= 0\<close> stands after the write to a matching slot and nowhere else. With an
  empty slot and an incomparable slot, both skipped, the loop runs out of slots and
  \<open>RemoveItem\<close> returns its error although the remainder is 0. With a matching slot the
  same request writes the slot back as it was, notifies, and returns nil.
\<close>

theorem RemoveItem_fails_with_remainder_zero:
  "Stack_Count (example_stack 1 0) = 0
   \<and> Stack_Empty Stack_zero
   \<and> \<not> Stack_Empty (example_stack 2 7)
   \<and> \<not> Stack_Comparable (example_stack 2 7) (example_stack 1 0)
   \<and> RemoveItem (example_inventory [Stack_zero, example_stack 2 7]) (example_stack 1 0) []
      = Returns (Some ErrCouldNotRemove, example_inventory [Stack_zero, example_stack 2 7], [])
   \<and> RemoveItem (example_inventory [example_stack 2 7, example_stack 1 5]) (example_stack 1 0) []
      = Returns (None, example_inventory [example_stack 2 7, example_stack 1 5],
                 [(1, example_stack 1 5)])"
proof -
  have fs: "f (example_inventory ss) = Some record_call" for ss
    by (simp add: example_inventory_def)
  show ?thesis
    unfolding RemoveItem_eq_scan [OF fs]
    by (simp add: example_inventory_def record_call_def notify_def stack_defs Let_def)
qed

section \<open>Adding and removing the same stack\<close>

text \<open>
  Claim C4 at quantity 0: on the one-slot inventory made by \<open>New\<close>, which is empty,
  \<open>AddItem\<close> of a stack of quantity 0 returns nil (slot 0 now holds the zero-quantity
  stack of that resource, still empty), and \<open>RemoveItem\<close> of the same stack returns the
  error: no slot is non-empty, so the loop never reaches its test of the remainder.
\<close>

theorem round_trip_fails_for_zero:
  "New 1 (Some record_call) = Returns (example_inventory [Stack_zero])
   \<and> Empty (example_inventory [Stack_zero])
   \<and> Stack_Count (example_stack 1 0) \<le> Stack_MaxCount (example_stack 1 0)
   \<and> AddItem (example_inventory [Stack_zero]) (example_stack 1 0) []
      = Returns (None, example_inventory [example_stack 1 0], [(0, example_stack 1 0)])
   \<and> RemoveItem (example_inventory [example_stack 1 0]) (example_stack 1 0) [(0, example_stack 1 0)]
      = Returns (Some ErrCouldNotRemove, example_inventory [example_stack 1 0],
                 [(0, example_stack 1 0)])"
proof -
  have fs: "f (example_inventory ss) = Some record_call" for ss
    by (simp add: example_inventory_def)
  show ?thesis
    by (simp add: AddItem_eq_scan [OF fs] RemoveItem_eq_scan [OF fs])
       (simp add: New_def Empty_def example_inventory_def record_call_def notify_def stack_defs
         Let_def)
qed

text \<open>
  For a quantity of at least 1 and at most the maximum of the resource, the round trip
  holds on every empty inventory with a slot: both calls return nil and the inventory is
  empty again.
\<close>

lemma round_trip_positive:
  assumes g: "f iv = Some g" and ne: "slots iv \<noteq> []" and e: "Empty iv"
    and q: "0 < q" "q \<le> int (max_quantity r)"
  shows "\<exists>iv1 w1 iv2 w2.
           AddItem iv (NewStack (Some r) q) w = Returns (None, iv1, w1)
         \<and> RemoveItem iv1 (NewStack (Some r) q) w1 = Returns (None, iv2, w2)
         \<and> Empty iv2"
proof -
  let ?it = "NewStack (Some r) q"
  from ne obtain s ss where sl: "slots iv = s # ss" by (cases "slots iv") auto
  have all: "Empty_loop (s # ss)" using e sl by (simp add: Empty_def)
  have skip: "pass1_scan xs ?it i = (False, ?it, xs, [])" if "Empty_loop xs" for xs i
    using that by (induction xs arbitrary: i) (auto split: if_splits)
  have es: "Stack_Empty s" and ess: "Empty_loop ss"
    using all by (auto split: if_splits)
  have add2: "pass2_scan (s # ss) ?it 0 = (True, NewStack (Some r) 0, ?it # ss, [(0, ?it)])"
    using es q by (simp add: stack_defs min_def)
  have add: "AddItem iv ?it w = Returns (None, iv\<lparr>slots := ?it # ss\<rparr>, notify g [(0, ?it)] w)"
    unfolding AddItem_eq_scan [OF g] sl skip [OF all]
    by (simp add: add2 notify_def del: pass2_scan.simps)
  have rem_scan: "remove_scan (?it # ss) ?it (Stack_Count ?it) 0
      = (True, NewStack (Some r) 0 # ss, [(0, NewStack (Some r) 0)])"
    using q by (simp add: stack_defs Let_def)
  have g1: "f (iv\<lparr>slots := ?it # ss\<rparr>) = Some g" using g by simp
  have rem: "RemoveItem (iv\<lparr>slots := ?it # ss\<rparr>) ?it (notify g [(0, ?it)] w)
      = Returns (None, iv\<lparr>slots := NewStack (Some r) 0 # ss\<rparr>,
                 notify g [(0, NewStack (Some r) 0)] (notify g [(0, ?it)] w))"
    unfolding RemoveItem_eq_scan [OF g1]
    by (simp add: rem_scan del: remove_scan.simps)
  have "Empty (iv\<lparr>slots := NewStack (Some r) 0 # ss\<rparr>)"
    using ess by (simp add: Empty_def stack_defs)
  with add rem show ?thesis by blast
qed

section \<open>The scenario of the specification\<close>

text \<open>
  Two slots, maximum quantity 64: adding 40 of resource 1 fills slot 0 with 40; adding 30
  more tops slot 0 up to 64 and spills 6 into slot 1; adding 10 of resource 2 fails and
  leaves both slots as they were; removing 50 of resource 1 leaves 14 and 6.
\<close>

lemma specification_scenario:
  "New 2 (Some record_call) = Returns (example_inventory [Stack_zero, Stack_zero])
   \<and> AddItem (example_inventory [Stack_zero, Stack_zero]) (example_stack 1 40) []
      = Returns (None, example_inventory [example_stack 1 40, Stack_zero], [(0, example_stack 1 40)])
   \<and> AddItem (example_inventory [example_stack 1 40, Stack_zero]) (example_stack 1 30) []
      = Returns (None, example_inventory [example_stack 1 64, example_stack 1 6],
                 [(0, example_stack 1 64), (1, example_stack 1 6)])
   \<and> AddItem (example_inventory [example_stack 1 64, example_stack 1 6]) (example_stack 2 10) []
      = Returns (Some ErrCouldNotAdd, example_inventory [example_stack 1 64, example_stack 1 6],
                 [(0, example_stack 1 64), (1, example_stack 1 6)])
   \<and> RemoveItem (example_inventory [example_stack 1 64, example_stack 1 6]) (example_stack 1 50) []
      = Returns (None, example_inventory [example_stack 1 14, example_stack 1 6],
                 [(0, example_stack 1 14)])"
proof -
  have fs: "f (example_inventory ss) = Some record_call" for ss
    by (simp add: example_inventory_def)
  show ?thesis
    unfolding AddItem_eq_scan [OF fs] RemoveItem_eq_scan [OF fs]
    by (simp add: New_def example_inventory_def record_call_def notify_def stack_defs Let_def
        numeral_2_eq_2)
qed

section \<open>The recipe registry: what was registered\<close>

lemma Register_all:
  "Recipes (foldl (\<lambda>recipes recipe. Register recipe recipes) rs0 rs) = rs0 @ rs"
  by (induction rs arbitrary: rs0) (simp_all add: Register_def Recipes_def)

text \<open>
  Claim C10: starting from the empty registry, after \<open>Register\<close> has been called on the
  recipes \<open>rs\<close> one after the other, \<open>Recipes\<close> returns exactly \<open>rs\<close>, in that order.
\<close>

theorem Recipes_after_Register:
  "Recipes (foldl (\<lambda>recipes recipe. Register recipe recipes) recipes_init rs) = rs"
  by (simp add: Register_all recipes_init_def)

end
